theory Spec2Isabelle
  imports Main "HOL-Library.Word"
begin

unbundle bit_operations_syntax

section \<open>The FTDI MPSSE I2C bus master (ftdi/i2c.go)\<close>

text \<open>
  A shallow embedding of \<^verbatim>\<open>ftdi/i2c.go\<close>. Command batches are byte lists, as in the
  source. The mutex \<^verbatim>\<open>d.f.mu\<close> is not modelled: every function below is one sequential
  run of the Go function with the lock held.
\<close>

subsection \<open>Bytes, frequencies, errors\<close>

type_synonym byte = "8 word"

text \<open>
  \<^verbatim>\<open>physic.Frequency\<close> is an \<^verbatim>\<open>int64\<close> counting micro-Hertz. It is modelled as \<open>int\<close>;
  \<open>wrap64\<close> is the two's-complement wrap-around of a 64-bit result and \<open>go_div\<close> is
  Go's integer division, which truncates towards zero.
\<close>

type_synonym Frequency = int

definition Hertz :: Frequency where
  "Hertz = 1000000"

definition KiloHertz :: Frequency where
  "KiloHertz = 1000 * Hertz"

definition MegaHertz :: Frequency where
  "MegaHertz = 1000 * KiloHertz"

definition wrap64 :: "int \<Rightarrow> int" where
  "wrap64 x = signed_take_bit 63 x"

definition go_div :: "int \<Rightarrow> int \<Rightarrow> int" where
  "go_div a b = sgn a * sgn b * (\<bar>a\<bar> div \<bar>b\<bar>)"

text \<open>
  The errors of the bus. \<open>OutOfRange\<close> stands for the two \<^verbatim>\<open>invalid speed\<close> messages of
  \<^verbatim>\<open>SetSpeed\<close>, \<open>Unsupported\<close> for \<^verbatim>\<open>PullUp will soon be implemented\<close>, \<open>NakReceived\<close> for
  \<^verbatim>\<open>got NAK\<close>. \<open>TransportError\<close> wraps whatever the handle \<^verbatim>\<open>d.f.h\<close> returned. The
  two run-time panics that the indexing and \<^verbatim>\<open>make\<close> of \<^verbatim>\<open>transactionEnd\<close> can raise are
  values as well.
\<close>

datatype error =
    OutOfRange
  | Unsupported
  | NakReceived
  | TransportError string
  | PanicIndexOutOfRange
  | PanicMakesliceLen

subsection \<open>The MPSSE opcodes and the handle\<close>

text \<open>
  The opcode constants are declared in a file of package \<^verbatim>\<open>ftdi\<close> that is not part of the
  sources at hand, so they are a parameter of every function that uses them.
\<close>

record mpsse =
  dataOut :: byte
  dataIn :: byte
  dataOutFall :: byte
  dataBit :: byte
  dataTristate :: byte
  gpioSetD :: byte
  internalLoopbackDisable :: byte
  clockSetDivisor :: byte
  flush :: byte
  clock30MHz :: byte
  clock3Phase :: byte
  clock2Phase :: byte
  clockNormal :: byte

text \<open>
  The handle \<^verbatim>\<open>d.f.h\<close> is used through four methods only. Its implementation is outside
  the sources at hand: it is a parameter, a deterministic machine over a state \<open>'h\<close>. A
  method returns the transport's error message, if any, and the next state. \<open>h_ReadAll\<close> is
  asked for a number of bytes and answers with the bytes received.
\<close>

record 'h handle =
  h_Flush :: "'h \<Rightarrow> string option \<times> 'h"
  h_Write :: "byte list \<Rightarrow> 'h \<Rightarrow> string option \<times> 'h"
  h_ReadAll :: "nat \<Rightarrow> 'h \<Rightarrow> (string + byte list) \<times> 'h"
  h_MPSSEClock :: "Frequency \<Rightarrow> 'h \<Rightarrow> string option \<times> 'h"

text \<open>
  The bus \<^verbatim>\<open>i2cBus\<close> together with the fields of \<^verbatim>\<open>FT232H\<close> it reaches through \<^verbatim>\<open>d.f\<close>:
  the state of the handle, the flag \<^verbatim>\<open>usingI2C\<close> and \<^verbatim>\<open>dbus.direction\<close>.
\<close>

record 'h i2cBus =
  h :: 'h
  usingI2C :: bool
  direction :: byte
  pullUp :: bool

definition i2cSCL :: byte where
  "i2cSCL = 1"

definition i2cSDAOut :: byte where
  "i2cSDAOut = 2"

definition i2cSDAIn :: byte where
  "i2cSDAIn = 4"

subsection \<open>SetSpeed\<close>

definition SetSpeed :: "'h handle \<Rightarrow> 'h i2cBus \<Rightarrow> Frequency \<Rightarrow> error option \<times> 'h i2cBus" where
  "SetSpeed dev d f =
     (if f > 10 * MegaHertz then (Some OutOfRange, d)
      else if f < 100 * Hertz then (Some OutOfRange, d)
      else (case h_MPSSEClock dev (go_div (wrap64 (f * 2)) 3) (h d) of
              (err, h') \<Rightarrow> (map_option TransportError err, d\<lparr>h := h'\<rparr>)))"

subsection \<open>The signal sequencer\<close>

definition setI2CLinesIdle :: "mpsse \<Rightarrow> 'h i2cBus \<Rightarrow> byte list \<times> 'h i2cBus" where
  "setI2CLinesIdle c d =
     (let mask = 0xFF AND NOT (i2cSCL OR i2cSDAOut OR i2cSDAIn);
          d' = d\<lparr>direction := (direction d AND mask) OR i2cSCL OR i2cSDAOut\<rparr>
      in ([gpioSetD c, i2cSCL OR i2cSDAOut, direction d',
           gpioSetD c, i2cSCL OR i2cSDAOut, direction d',
           gpioSetD c, i2cSCL OR i2cSDAOut, direction d',
           gpioSetD c, i2cSCL OR i2cSDAOut, direction d'], d'))"

definition setI2CStart :: "mpsse \<Rightarrow> 'h i2cBus \<Rightarrow> byte list" where
  "setI2CStart c d =
     (let dir = direction d
      in [gpioSetD c, i2cSCL, dir,
          gpioSetD c, i2cSCL, dir,
          gpioSetD c, i2cSCL, dir,
          gpioSetD c, i2cSCL, dir,
          gpioSetD c, 0x00, dir,
          gpioSetD c, 0x00, dir,
          gpioSetD c, 0x00, dir,
          gpioSetD c, 0x00, dir])"

definition setI2CStop :: "mpsse \<Rightarrow> 'h i2cBus \<Rightarrow> byte list" where
  "setI2CStop c d =
     (let dir = direction d
      in [gpioSetD c, 0x00, dir,
          gpioSetD c, 0x00, dir,
          gpioSetD c, 0x00, dir,
          gpioSetD c, 0x00, dir,
          gpioSetD c, i2cSCL, dir,
          gpioSetD c, i2cSCL, dir,
          gpioSetD c, i2cSCL, dir,
          gpioSetD c, i2cSCL, dir,
          gpioSetD c, i2cSCL OR i2cSDAOut, dir,
          gpioSetD c, i2cSCL OR i2cSDAOut, dir,
          gpioSetD c, i2cSCL OR i2cSDAOut, dir,
          gpioSetD c, i2cSCL OR i2cSDAOut, dir])"

text \<open>The loop \<^verbatim>\<open>for _, c := range w\<close> is a left fold over \<open>w\<close>.\<close>

definition setI2CWriteBytes :: "mpsse \<Rightarrow> 'h i2cBus \<Rightarrow> byte list \<Rightarrow> byte list" where
  "setI2CWriteBytes c d w =
     (let dir = direction d;
          cmd1 = [dataOut c OR dataOutFall c, 0, 0];
          cmd2 = [gpioSetD c, i2cSDAOut, dir,
                  gpioSetD c, i2cSDAOut, dir,
                  gpioSetD c, i2cSDAOut, dir,
                  gpioSetD c, i2cSDAOut, dir,
                  dataIn c OR dataBit c, 0]
      in foldl (\<lambda>cmdfull b. cmdfull @ cmd1 @ [b] @ cmd2) [] w)"

text \<open>
  The counting loop of \<^verbatim>\<open>setI2CReadBytes\<close>, with the counter \<^verbatim>\<open>iCnt\<close> and the
  accumulated \<^verbatim>\<open>cmdfull\<close> as arguments.
\<close>

function setI2CReadBytes_loop ::
  "byte list \<Rightarrow> byte list \<Rightarrow> int \<Rightarrow> int \<Rightarrow> byte list \<Rightarrow> byte list" where
  "setI2CReadBytes_loop cmd1 cmd2 setCnt iCnt cmdfull =
     (if iCnt < setCnt
      then setI2CReadBytes_loop cmd1 cmd2 setCnt (iCnt + 1)
             ((cmdfull @ cmd1 @ (if iCnt \<noteq> setCnt - 1 then [0x00] else [0xFF])) @ cmd2)
      else cmdfull)"
  by pat_completeness auto
termination
  by (relation "measure (\<lambda>(cmd1, cmd2, setCnt, iCnt, cmdfull). nat (setCnt - iCnt))") auto

definition setI2CReadBytes :: "mpsse \<Rightarrow> 'h i2cBus \<Rightarrow> int \<Rightarrow> byte list" where
  "setI2CReadBytes c d setCnt =
     (let dir = direction d;
          cmd1 = [dataIn c, 0, 0,
                  dataOut c OR dataOutFall c OR dataBit c, 0];
          cmd2 = [gpioSetD c, i2cSDAOut, dir]
      in setI2CReadBytes_loop cmd1 cmd2 setCnt 0 [])"

definition address_byte :: "16 word \<Rightarrow> bool \<Rightarrow> byte" where
  "address_byte uiAddr bRead =
     (if bRead = True then ucast (push_bit 1 uiAddr OR 0x01)
      else ucast (push_bit 1 uiAddr AND 0xFE))"

subsection \<open>The transaction builder and the executor\<close>

text \<open>
  Go's \<^verbatim>\<open>xs[i]\<close> with an \<^verbatim>\<open>int\<close> index: \<open>None\<close> is the index-out-of-range panic.
\<close>

definition index :: "'a list \<Rightarrow> int \<Rightarrow> 'a option" where
  "index xs i = (if 0 \<le> i \<and> i < int (length xs) then Some (xs ! nat i) else None)"

text \<open>
  \<^verbatim>\<open>ReadAll\<close> stores the bytes received into the buffer it is given, whose length
  it cannot change.
\<close>

definition fill :: "byte list \<Rightarrow> byte list \<Rightarrow> byte list" where
  "fill buf bytes = take (length buf) bytes @ drop (length bytes) buf"

text \<open>The loop \<^verbatim>\<open>verify acks\<close>; the bound \<open>lim\<close> is \<^verbatim>\<open>readCnt - len(r)\<close>.\<close>

function verifyAcks :: "byte list \<Rightarrow> int \<Rightarrow> int \<Rightarrow> error option" where
  "verifyAcks readBuff lim iCnt =
     (if iCnt < lim
      then (case index readBuff iCnt of
              None \<Rightarrow> Some PanicIndexOutOfRange
            | Some b \<Rightarrow>
                if b AND 0x01 \<noteq> 0 then Some NakReceived
                else verifyAcks readBuff lim (iCnt + 1))
      else None)"
  by pat_completeness auto
termination
  by (relation "measure (\<lambda>(readBuff, lim, iCnt). nat (lim - iCnt))") auto

text \<open>
  The loop \<^verbatim>\<open>set Recv Data\<close>. It returns the caller's buffer \<open>r\<close> as the loop left it:
  the Go code writes into the caller's slice in place.
\<close>

function setRecvData :: "byte list \<Rightarrow> int \<Rightarrow> int \<Rightarrow> byte list \<Rightarrow> error option \<times> byte list" where
  "setRecvData readBuff readCnt iCnt r =
     (if iCnt < int (length r)
      then (case index readBuff ((readCnt - int (length r)) + iCnt) of
              None \<Rightarrow> (Some PanicIndexOutOfRange, r)
            | Some b \<Rightarrow>
                if 0 \<le> iCnt
                then setRecvData readBuff readCnt (iCnt + 1) (r[nat iCnt := b])
                else (Some PanicIndexOutOfRange, r))
      else (None, r))"
  by pat_completeness auto
termination
  by (relation "measure (\<lambda>(readBuff, readCnt, iCnt, r). nat (int (length r) - iCnt))") auto

text \<open>
  \<^verbatim>\<open>transactionEnd\<close> returns the error (or \<open>None\<close> for \<^verbatim>\<open>nil\<close>), the caller's read buffer as
  the call leaves it, and the bus.
\<close>

definition transactionEnd ::
  "'h handle \<Rightarrow> mpsse \<Rightarrow> 'h i2cBus \<Rightarrow> byte list \<Rightarrow> int \<Rightarrow> byte list
     \<Rightarrow> error option \<times> byte list \<times> 'h i2cBus" where
  "transactionEnd dev c d w readCnt r =
     (case h_Flush dev (h d) of
        (Some e, h1) \<Rightarrow> (Some (TransportError e), r, d\<lparr>h := h1\<rparr>)
      | (None, h1) \<Rightarrow>
          if readCnt < 0 then (Some PanicMakesliceLen, r, d\<lparr>h := h1\<rparr>)
          else
            (let readBuff = replicate (nat readCnt) 0;
                 cmdfull = ([] @ w) @ [flush c]
             in case h_Write dev cmdfull h1 of
                  (Some e, h2) \<Rightarrow> (Some (TransportError e), r, d\<lparr>h := h2\<rparr>)
                | (None, h2) \<Rightarrow>
                    (case h_ReadAll dev (length readBuff) h2 of
                       (Inl e, h3) \<Rightarrow> (Some (TransportError e), r, d\<lparr>h := h3\<rparr>)
                     | (Inr bytes, h3) \<Rightarrow>
                         (let readBuff = fill readBuff bytes
                          in case verifyAcks readBuff (readCnt - int (length r)) 0 of
                               Some e \<Rightarrow> (Some e, r, d\<lparr>h := h3\<rparr>)
                             | None \<Rightarrow>
                                 (case setRecvData readBuff readCnt 0 r of
                                    (e, r') \<Rightarrow> (e, r', d\<lparr>h := h3\<rparr>))))))"

text \<open>
  \<^verbatim>\<open>Tx\<close> up to its call of \<^verbatim>\<open>transactionEnd\<close>: the assembled \<^verbatim>\<open>cmdFull\<close>, the count
  \<^verbatim>\<open>iReadCnt\<close> and the bus (whose direction mask \<^verbatim>\<open>setI2CLinesIdle\<close> rewrites).
\<close>

definition Tx_batch ::
  "mpsse \<Rightarrow> 'h i2cBus \<Rightarrow> 16 word \<Rightarrow> byte list \<Rightarrow> byte list \<Rightarrow> byte list \<times> int \<times> 'h i2cBus" where
  "Tx_batch c d addr w r =
     (let cmdFull = [] @ setI2CStart c d;
          byWrite = [] @ [address_byte addr False];
          byWrite = (if length w \<noteq> 0 then byWrite @ w else byWrite);
          cmdFull = cmdFull @ setI2CWriteBytes c d byWrite;
          iReadCnt = int (length byWrite);
          (cmdFull, iReadCnt, d) =
            (if length r \<noteq> 0 \<and> length w \<noteq> 0
             then
               (let cmdFull = cmdFull @ setI2CStop c d;
                    (cmd, d) = setI2CLinesIdle c d;
                    cmdFull = cmdFull @ cmd;
                    cmdFull = cmdFull @ setI2CStart c d;
                    byRead = [] @ [address_byte addr True];
                    cmdFull = cmdFull @ setI2CWriteBytes c d byRead;
                    iReadCnt = iReadCnt + int (length byRead);
                    cmdFull = cmdFull @ setI2CReadBytes c d (int (length r));
                    iReadCnt = iReadCnt + int (length r)
                in (cmdFull, iReadCnt, d))
             else (cmdFull, iReadCnt, d));
          cmdFull = cmdFull @ setI2CStop c d
      in (cmdFull, iReadCnt, d))"

definition Tx ::
  "'h handle \<Rightarrow> mpsse \<Rightarrow> 'h i2cBus \<Rightarrow> 16 word \<Rightarrow> byte list \<Rightarrow> byte list
     \<Rightarrow> error option \<times> byte list \<times> 'h i2cBus" where
  "Tx dev c d addr w r =
     (case Tx_batch c d addr w r of
        (cmdFull, iReadCnt, d') \<Rightarrow> transactionEnd dev c d' cmdFull iReadCnt r)"

subsection \<open>Bus setup and close\<close>

definition setupI2C :: "'h handle \<Rightarrow> mpsse \<Rightarrow> 'h i2cBus \<Rightarrow> bool \<Rightarrow> error option \<times> 'h i2cBus" where
  "setupI2C dev c d pullUp' =
     (if pullUp' then (Some Unsupported, d)
      else
        (let f = 400 * KiloHertz;
             clk = go_div (wrap64 (wrap64 (go_div (30 * MegaHertz) f - 1) * 2)) 3;
             cmd = [] @ [clock30MHz c, clockNormal c, clock3Phase c, dataTristate c,
                         0x07, 0x00, internalLoopbackDisable c];
             cmd = cmd @ [clockSetDivisor c, word_of_int clk, word_of_int (drop_bit 8 clk)]
         in case h_Write dev cmd (h d) of
              (Some e, h1) \<Rightarrow> (Some (TransportError e), d\<lparr>h := h1\<rparr>)
            | (None, h1) \<Rightarrow>
                (let d = d\<lparr>h := h1, usingI2C := True, pullUp := pullUp'\<rparr>;
                     (cmd, d) = setI2CLinesIdle c d;
                     cmd = cmd @ [flush c]
                 in case h_Write dev cmd (h d) of
                      (Some e, h2) \<Rightarrow> (Some (TransportError e), d\<lparr>h := h2\<rparr>)
                    | (None, h2) \<Rightarrow> (None, d\<lparr>h := h2\<rparr>))))"

definition stopI2C :: "'h handle \<Rightarrow> mpsse \<Rightarrow> 'h i2cBus \<Rightarrow> error option \<times> 'h i2cBus" where
  "stopI2C dev c d =
     (let cmd = [clock2Phase c, clock30MHz c, 0, 0];
          cmd = (if \<not> pullUp d then cmd @ [dataTristate c, 0, 0] else cmd)
      in case h_Write dev cmd (h d) of
           (err, h') \<Rightarrow> (map_option TransportError err, d\<lparr>h := h', usingI2C := False\<rparr>))"

definition Close :: "'h handle \<Rightarrow> mpsse \<Rightarrow> 'h i2cBus \<Rightarrow> error option \<times> 'h i2cBus" where
  "Close dev c d = stopI2C dev c d"

subsection \<open>Reading a batch as the adapter does\<close>

text \<open>
  To count the operations of a batch, the byte list is read back command by command. The
  sequencer emits five commands: set the pins of the low port (opcode, value, direction),
  shift bytes out on the falling edge (opcode, length minus one in two bytes, low byte
  first, then the data), shift bits in (opcode, length minus one), shift bytes in (opcode,
  length minus one in two bytes) and shift bits out on the falling edge (opcode, length
  minus one, one data byte). \<open>decode\<close> is \<open>None\<close> on anything else.
\<close>

datatype mpsse_op =
    SetPins byte byte
  | WriteBytes byte byte "byte list"
  | ReadBit byte
  | ReadBytes byte byte
  | WriteBit byte byte

fun decode :: "mpsse \<Rightarrow> byte list \<Rightarrow> mpsse_op list option" where
  "decode c [] = Some []"
| "decode c (b # bs) =
     (if b = gpioSetD c then
        (case bs of
           v # dir # rest \<Rightarrow> map_option ((#) (SetPins v dir)) (decode c rest)
         | _ \<Rightarrow> None)
      else if b = (dataOut c OR dataOutFall c) then
        (case bs of
           lo # hi # rest \<Rightarrow>
             (let n = unat lo + 256 * unat hi + 1
              in if length rest < n then None
                 else map_option ((#) (WriteBytes lo hi (take n rest))) (decode c (drop n rest)))
         | _ \<Rightarrow> None)
      else if b = (dataIn c OR dataBit c) then
        (case bs of
           n # rest \<Rightarrow> map_option ((#) (ReadBit n)) (decode c rest)
         | _ \<Rightarrow> None)
      else if b = dataIn c then
        (case bs of
           lo # hi # rest \<Rightarrow> map_option ((#) (ReadBytes lo hi)) (decode c rest)
         | _ \<Rightarrow> None)
      else if b = (dataOut c OR dataOutFall c OR dataBit c) then
        (case bs of
           n # v # rest \<Rightarrow> map_option ((#) (WriteBit n v)) (decode c rest)
         | _ \<Rightarrow> None)
      else None)"

text \<open>The five opcodes must differ for a batch to be readable.\<close>

definition mpsse_distinct :: "mpsse \<Rightarrow> bool" where
  "mpsse_distinct c =
     distinct [gpioSetD c, dataOut c OR dataOutFall c, dataIn c OR dataBit c, dataIn c,
               dataOut c OR dataOutFall c OR dataBit c]"

text \<open>
  An acknowledgment-bearing operation shifts a single bit in. A read operation shifts
  bytes in. Every shift-in makes the adapter answer: one byte for up to eight bits, one per
  byte otherwise.
\<close>

definition ackOps :: "mpsse_op list \<Rightarrow> nat" where
  "ackOps ops = length (filter (\<lambda>op. op = ReadBit 0) ops)"

fun isReadBytes :: "mpsse_op \<Rightarrow> bool" where
  "isReadBytes (ReadBytes lo hi) = True"
| "isReadBytes _ = False"

definition readOps :: "mpsse_op list \<Rightarrow> nat" where
  "readOps ops = length (filter isReadBytes ops)"

fun responses :: "mpsse_op \<Rightarrow> nat" where
  "responses (ReadBit n) = 1"
| "responses (ReadBytes lo hi) = unat lo + 256 * unat hi + 1"
| "responses _ = 0"

definition responseBytes :: "mpsse_op list \<Rightarrow> nat" where
  "responseBytes ops = sum_list (map responses ops)"

text \<open>
  The bits that the master drives: a one-bit shift-out sends the top bit of its data byte
  (the opcodes of the source never set the least-significant-bit-first flag).
\<close>

fun drivenBit :: "mpsse_op \<Rightarrow> bool list" where
  "drivenBit (WriteBit n v) = [bit v 7]"
| "drivenBit _ = []"

definition ackBits :: "mpsse_op list \<Rightarrow> bool list" where
  "ackBits ops = concat (map drivenBit ops)"

text \<open>The operations of the sequencer's five builders, for a direction mask.\<close>

definition startOps :: "byte \<Rightarrow> mpsse_op list" where
  "startOps dir = replicate 4 (SetPins i2cSCL dir) @ replicate 4 (SetPins 0 dir)"

definition stopOps :: "byte \<Rightarrow> mpsse_op list" where
  "stopOps dir =
     replicate 4 (SetPins 0 dir) @ replicate 4 (SetPins i2cSCL dir)
       @ replicate 4 (SetPins (i2cSCL OR i2cSDAOut) dir)"

definition idleOps :: "byte \<Rightarrow> mpsse_op list" where
  "idleOps dir = replicate 4 (SetPins (i2cSCL OR i2cSDAOut) dir)"

definition writeByteOps :: "byte \<Rightarrow> byte \<Rightarrow> mpsse_op list" where
  "writeByteOps dir b = WriteBytes 0 0 [b] # replicate 4 (SetPins i2cSDAOut dir) @ [ReadBit 0]"

definition readByteOps :: "byte \<Rightarrow> byte \<Rightarrow> mpsse_op list" where
  "readByteOps dir ack = [ReadBytes 0 0, WriteBit 0 ack, SetPins i2cSDAOut dir]"

text \<open>The bytes that one turn of the loops of \<^verbatim>\<open>setI2CWriteBytes\<close> and \<^verbatim>\<open>setI2CReadBytes\<close> appends.\<close>

definition writeChunk :: "mpsse \<Rightarrow> byte \<Rightarrow> byte \<Rightarrow> byte list" where
  "writeChunk c dir b =
     [dataOut c OR dataOutFall c, 0, 0, b,
      gpioSetD c, i2cSDAOut, dir, gpioSetD c, i2cSDAOut, dir,
      gpioSetD c, i2cSDAOut, dir, gpioSetD c, i2cSDAOut, dir,
      dataIn c OR dataBit c, 0]"

definition readChunk :: "mpsse \<Rightarrow> byte \<Rightarrow> byte \<Rightarrow> byte list" where
  "readChunk c dir ack =
     [dataIn c, 0, 0, dataOut c OR dataOutFall c OR dataBit c, 0, ack,
      gpioSetD c, i2cSDAOut, dir]"

subsection \<open>The raw response of a transaction\<close>

text \<open>
  The three calls that \<^verbatim>\<open>transactionEnd\<close> makes on the handle, when none of them fails:
  flush, write the batch followed by the flush opcode, read \<open>n\<close> bytes into a zeroed
  buffer. The result is that buffer, the raw response, and the state of the handle.
\<close>

definition roundTrip :: "'h handle \<Rightarrow> mpsse \<Rightarrow> 'h \<Rightarrow> byte list \<Rightarrow> nat \<Rightarrow> (byte list \<times> 'h) option" where
  "roundTrip dev c h0 cmd n =
     (case h_Flush dev h0 of
        (Some e, h1) \<Rightarrow> None
      | (None, h1) \<Rightarrow>
          (case h_Write dev (cmd @ [flush c]) h1 of
             (Some e, h2) \<Rightarrow> None
           | (None, h2) \<Rightarrow>
               (case h_ReadAll dev n h2 of
                  (Inl e, h3) \<Rightarrow> None
                | (Inr bytes, h3) \<Rightarrow> Some (fill (replicate n 0) bytes, h3))))"

subsection \<open>Instances of the parameters\<close>

text \<open>
  The opcode values of the FT232H command set (the comments of \<^verbatim>\<open>setupI2C\<close> and
  \<^verbatim>\<open>setI2CReadBytes\<close> quote most of them), and two handles: an adapter that records what
  it is sent and answers from a queue of bytes, and one that takes a single write and fails
  from then on.
\<close>

definition ft232h :: mpsse where
  "ft232h = \<lparr>dataOut = 0x10, dataIn = 0x20, dataOutFall = 0x01, dataBit = 0x02,
     dataTristate = 0x9E, gpioSetD = 0x80, internalLoopbackDisable = 0x85,
     clockSetDivisor = 0x86, flush = 0x87, clock30MHz = 0x8A, clock3Phase = 0x8C,
     clock2Phase = 0x8D, clockNormal = 0x97\<rparr>"

record adapter =
  sent :: "byte list list"
  pending :: "byte list"
  clock :: "Frequency option"

definition recorder :: "adapter handle" where
  "recorder =
     \<lparr>h_Flush = (\<lambda>a. (None, a)),
      h_Write = (\<lambda>cmd a. (None, a\<lparr>sent := sent a @ [cmd]\<rparr>)),
      h_ReadAll = (\<lambda>n a. (Inr (take n (pending a)), a\<lparr>pending := drop n (pending a)\<rparr>)),
      h_MPSSEClock = (\<lambda>f a. (None, a\<lparr>clock := Some f\<rparr>))\<rparr>"

definition unplugged :: "adapter handle" where
  "unplugged =
     \<lparr>h_Flush = (\<lambda>a. (None, a)),
      h_Write = (\<lambda>cmd a. if sent a = [] then (None, a\<lparr>sent := [cmd]\<rparr>)
                           else (Some ''usb: write failed'', a)),
      h_ReadAll = (\<lambda>n a. (Inl ''usb: read failed'', a)),
      h_MPSSEClock = (\<lambda>f a. (Some ''usb: write failed'', a))\<rparr>"

definition bus0 :: "byte list \<Rightarrow> adapter i2cBus" where
  "bus0 rx =
     \<lparr>h = \<lparr>sent = [], pending = rx, clock = None\<rparr>,
      usingI2C = True, direction = 0xFB, pullUp = False\<rparr>"

section \<open>Properties\<close>

declare setI2CReadBytes_loop.simps [simp del]
declare verifyAcks.simps [simp del]
declare setRecvData.simps [simp del]
declare decode.simps [simp del]

subsection \<open>Arithmetic of the clock translator\<close>

lemma go_div_nonneg: "0 \<le> a \<Longrightarrow> 0 < b \<Longrightarrow> go_div a b = a div b"
  by (cases "a = 0") (simp_all add: go_div_def)

lemma wrap64_id: "- (2 ^ 63) \<le> x \<Longrightarrow> x < 2 ^ 63 \<Longrightarrow> wrap64 x = x"
  unfolding wrap64_def by (simp add: signed_take_bit_int_eq_self)

lemma SetSpeed_scaled:
  assumes "100 * Hertz \<le> f" "f \<le> 10 * MegaHertz"
  shows "go_div (wrap64 (f * 2)) 3 = f * 2 div 3"
proof -
  have lo: "0 \<le> f * 2" using assms by (simp add: Hertz_def)
  have hi: "f * 2 < 2 ^ 63" using assms by (simp add: MegaHertz_def KiloHertz_def Hertz_def)
  have "wrap64 (f * 2) = f * 2" using lo hi by (intro wrap64_id) simp_all
  then show ?thesis using lo by (simp add: go_div_nonneg)
qed

text \<open>
  C4. For every frequency from 100 Hz to 10 MHz, \<open>SetSpeed\<close> does not return \<open>OutOfRange\<close>
  and hands \<open>f * 2 / 3\<close> to the adapter's clock primitive: the product does not wrap and the
  truncating division is the exact quotient. Its result is the primitive's. For every
  frequency above 10 MHz or below 100 Hz it returns \<open>OutOfRange\<close> and the bus, the state of
  the handle included, is as before.
\<close>

theorem SetSpeed_range:
  "(100 * Hertz \<le> f \<and> f \<le> 10 * MegaHertz \<longrightarrow>
      fst (SetSpeed dev d f) \<noteq> Some OutOfRange \<and>
      SetSpeed dev d f =
        (map_option TransportError (fst (h_MPSSEClock dev (f * 2 div 3) (h d))),
         d\<lparr>h := snd (h_MPSSEClock dev (f * 2 div 3) (h d))\<rparr>)) \<and>
   (f > 10 * MegaHertz \<or> f < 100 * Hertz \<longrightarrow> SetSpeed dev d f = (Some OutOfRange, d))"
proof (intro conjI impI)
  assume r: "100 * Hertz \<le> f \<and> f \<le> 10 * MegaHertz"
  then have s: "go_div (wrap64 (f * 2)) 3 = f * 2 div 3"
    by (simp add: SetSpeed_scaled)
  from r show eq: "SetSpeed dev d f =
        (map_option TransportError (fst (h_MPSSEClock dev (f * 2 div 3) (h d))),
         d\<lparr>h := snd (h_MPSSEClock dev (f * 2 div 3) (h d))\<rparr>)"
    by (simp add: SetSpeed_def s split: prod.splits)
  show "fst (SetSpeed dev d f) \<noteq> Some OutOfRange"
    by (cases "fst (h_MPSSEClock dev (f * 2 div 3) (h d))") (simp_all add: eq)
next
  assume "f > 10 * MegaHertz \<or> f < 100 * Hertz"
  then show "SetSpeed dev d f = (Some OutOfRange, d)"
    by (auto simp: SetSpeed_def)
qed

theorem SetSpeed_range_witness:
  "100 * Hertz \<le> 400 * KiloHertz \<and> 400 * KiloHertz \<le> 10 * MegaHertz \<and>
   SetSpeed recorder (bus0 []) (400 * KiloHertz) =
     (None, (bus0 [])\<lparr>h := \<lparr>sent = [], pending = [], clock = Some 266666666666\<rparr>\<rparr>) \<and>
   99 * Hertz < 100 * Hertz \<and>
   SetSpeed recorder (bus0 []) (99 * Hertz) = (Some OutOfRange, bus0 [])"
  using SetSpeed_range [of "400 * KiloHertz" recorder "bus0 []"]
        SetSpeed_range [of "99 * Hertz" recorder "bus0 []"]
  by (simp add: Hertz_def KiloHertz_def MegaHertz_def recorder_def bus0_def)

text \<open>
  C8. With \<open>pullUp = False\<close>, the first command \<open>setupI2C\<close> writes ends with the set-divisor
  opcode followed by the divisor \<open>((30 MHz / 400 kHz) - 1) * 2 / 3 = 49\<close>, low byte first:
  49, then 0.
\<close>

theorem setupI2C_clock_divisor:
  "setupI2C dev c d False =
     (case h_Write dev [clock30MHz c, clockNormal c, clock3Phase c, dataTristate c, 0x07, 0x00,
                         internalLoopbackDisable c, clockSetDivisor c, 49, 0] (h d) of
        (Some e, h1) \<Rightarrow> (Some (TransportError e), d\<lparr>h := h1\<rparr>)
      | (None, h1) \<Rightarrow>
          (case setI2CLinesIdle c (d\<lparr>h := h1, usingI2C := True, pullUp := False\<rparr>) of
             (cmd, d') \<Rightarrow>
               (case h_Write dev (cmd @ [flush c]) h1 of
                  (Some e, h2) \<Rightarrow> (Some (TransportError e), d'\<lparr>h := h2\<rparr>)
                | (None, h2) \<Rightarrow> (None, d'\<lparr>h := h2\<rparr>)))) \<and>
   ((30 * MegaHertz) div (400 * KiloHertz) - 1) * 2 div 3 = 49"
proof -
  have clk: "go_div (wrap64 (wrap64 (go_div (30 * MegaHertz) (400 * KiloHertz) - 1) * 2)) 3 = 49"
    by (simp add: go_div_def wrap64_def MegaHertz_def KiloHertz_def Hertz_def
          signed_take_bit_int_eq_self)
  have b: "drop_bit 8 (49::int) = 0"
    by (simp add: drop_bit_eq_div)
  have q: "((30 * MegaHertz) div (400 * KiloHertz) - 1) * 2 div 3 = 49"
    by (simp add: MegaHertz_def KiloHertz_def Hertz_def)
  have "setupI2C dev c d False =
     (case h_Write dev [clock30MHz c, clockNormal c, clock3Phase c, dataTristate c, 0x07, 0x00,
                         internalLoopbackDisable c, clockSetDivisor c, 49, 0] (h d) of
        (Some e, h1) \<Rightarrow> (Some (TransportError e), d\<lparr>h := h1\<rparr>)
      | (None, h1) \<Rightarrow>
          (case setI2CLinesIdle c (d\<lparr>h := h1, usingI2C := True, pullUp := False\<rparr>) of
             (cmd, d') \<Rightarrow>
               (case h_Write dev (cmd @ [flush c]) h1 of
                  (Some e, h2) \<Rightarrow> (Some (TransportError e), d'\<lparr>h := h2\<rparr>)
                | (None, h2) \<Rightarrow> (None, d'\<lparr>h := h2\<rparr>))))"
    by (simp add: setupI2C_def Let_def clk b setI2CLinesIdle_def
          split: prod.splits option.splits)
  then show ?thesis
    using q by (rule conjI)
qed

subsection \<open>The loops of the sequencer\<close>

lemma foldl_append_chunks: "foldl (\<lambda>acc b. acc @ f b) a w = a @ concat (map f w)"
  by (induction w arbitrary: a) simp_all

lemma setI2CWriteBytes_chunks:
  "setI2CWriteBytes c d w = concat (map (writeChunk c (direction d)) w)"
  using foldl_append_chunks [of "writeChunk c (direction d)" "[]" w]
  by (simp add: setI2CWriteBytes_def Let_def writeChunk_def)

lemma setI2CReadBytes_loop_chunks:
  "setI2CReadBytes_loop cmd1 cmd2 n i acc =
     acc @ concat (map (\<lambda>j. cmd1 @ (if j \<noteq> n - 1 then [0x00] else [0xFF]) @ cmd2) [i..n - 1])"
proof (induction cmd1 cmd2 n i acc rule: setI2CReadBytes_loop.induct)
  case (1 cmd1 cmd2 setCnt iCnt cmdfull)
  show ?case
  proof (cases "iCnt < setCnt")
    case True
    then have "[iCnt..setCnt - 1] = iCnt # [iCnt + 1..setCnt - 1]"
      by (simp add: upto_rec1)
    with True 1 show ?thesis
      by (subst setI2CReadBytes_loop.simps) simp
  next
    case False
    then show ?thesis
      by (subst setI2CReadBytes_loop.simps) simp
  qed
qed

lemma setI2CReadBytes_chunks:
  "setI2CReadBytes c d n =
     concat (map (\<lambda>j. readChunk c (direction d) (if j \<noteq> n - 1 then 0x00 else 0xFF)) [0..n - 1])"
proof -
  have "\<And>j. (if j \<noteq> n - 1 then [0x00::byte] else [0xFF]) = [if j \<noteq> n - 1 then 0x00 else 0xFF]"
    by simp
  then show ?thesis
    by (simp add: setI2CReadBytes_def Let_def setI2CReadBytes_loop_chunks readChunk_def)
qed

lemma upto_acks:
  assumes "1 \<le> n"
  shows "map (\<lambda>j. if j \<noteq> n - 1 then (0x00::byte) else 0xFF) [0..n - 1]
           = replicate (nat (n - 1)) 0x00 @ [0xFF]"
proof -
  have s: "[0..n - 1] = [0..n - 2] @ [n - 1]"
    using assms upto_rec2 [of 0 "n - 1"] by simp
  have "map (\<lambda>j. if j \<noteq> n - 1 then (0x00::byte) else 0xFF) [0..n - 2]
          = map (\<lambda>j. 0x00) [0..n - 2]"
    by (rule map_cong) auto
  also have "\<dots> = replicate (nat (n - 1)) 0x00"
    using assms by (simp add: map_replicate_const)
  finally show ?thesis by (simp add: s)
qed

lemma setI2CReadBytes_acks:
  assumes "1 \<le> n"
  shows "setI2CReadBytes c d n =
     concat (map (readChunk c (direction d)) (replicate (nat (n - 1)) 0x00 @ [0xFF]))"
proof -
  have "setI2CReadBytes c d n =
     concat (map (readChunk c (direction d))
               (map (\<lambda>j. if j \<noteq> n - 1 then (0x00::byte) else 0xFF) [0..n - 1]))"
    by (simp add: setI2CReadBytes_chunks comp_def)
  then show ?thesis by (simp only: upto_acks [OF assms])
qed

subsection \<open>Address framing\<close>

lemma m7: "(0x7F::16 word) = mask 7"
  by (simp add: mask_eq_exp_minus_1)

lemma mFE: "(0xFE::16 word) = push_bit 1 (mask 7)"
  by (simp add: mask_eq_exp_minus_1)

lemma address_byte_low7:
  "address_byte addr rd = push_bit 1 (ucast (addr AND 0x7F)) OR (if rd then 1 else 0)"
  unfolding address_byte_def m7 mFE
  apply (rule bit_word_eqI)
  apply (cases rd)
   apply (simp_all only: bit_simps if_True if_False refl simp_thms)
   apply (auto simp: bit_simps)
  done

lemma address_byte_framing:
  "address_byte addr rd = (ucast (push_bit 1 addr) AND 0xFE) OR (if rd then 1 else 0)"
proof -
  have e: "(0xFE::byte) = push_bit 1 (mask 7)"
    by (simp add: mask_eq_exp_minus_1)
  show ?thesis
    unfolding address_byte_def mFE e
    apply (rule bit_word_eqI)
    apply (cases rd)
     apply (simp_all only: bit_simps if_True if_False refl simp_thms)
     apply (auto simp: bit_simps)
    done
qed

lemma address_byte_cong:
  "addr AND 0x7F = addr' AND 0x7F \<Longrightarrow> address_byte addr rd = address_byte addr' rd"
  by (simp add: address_byte_low7)

lemma Tx_batch_cong:
  "addr AND 0x7F = addr' AND 0x7F \<Longrightarrow> Tx_batch c d addr w r = Tx_batch c d addr' w r"
  unfolding Tx_batch_def by (simp only: address_byte_cong [of addr addr'])

text \<open>
  C10. \<open>Tx\<close> never looks at the upper bits of its 16-bit address. The framed byte is the
  low eight bits of the address shifted left by one, with bit 0 set to the direction flag;
  so two addresses that agree on their low seven bits give, with the same payload and read
  buffer, the same batch and the same result of \<open>Tx\<close>.
\<close>

theorem Tx_upper_address_bits_ignored:
  assumes "addr AND 0x7F = addr' AND 0x7F"
  shows "address_byte addr rd = (ucast (push_bit 1 addr) AND 0xFE) OR (if rd then 1 else 0) \<and>
         Tx_batch c d addr w r = Tx_batch c d addr' w r \<and>
         Tx dev c d addr w r = Tx dev c d addr' w r"
  using assms by (simp add: Tx_def Tx_batch_cong [of addr addr'] address_byte_framing)

theorem Tx_upper_address_bits_ignored_witness:
  "(0x50::16 word) AND 0x7F = 0xD0 AND 0x7F \<and>
   address_byte 0x50 True = (ucast (push_bit 1 (0x50::16 word)) AND 0xFE) OR (if True then 1 else 0) \<and>
   Tx_batch ft232h (bus0 [0, 0, 0, 7]) 0x50 [0x10] [0xAA]
     = Tx_batch ft232h (bus0 [0, 0, 0, 7]) 0xD0 [0x10] [0xAA] \<and>
   Tx recorder ft232h (bus0 [0, 0, 0, 7]) 0x50 [0x10] [0xAA]
     = Tx recorder ft232h (bus0 [0, 0, 0, 7]) 0xD0 [0x10] [0xAA]"
proof -
  have a: "(0x50::16 word) AND 0x7F = 0xD0 AND 0x7F"
    by simp
  show ?thesis
    using a Tx_upper_address_bits_ignored [OF a, of True ft232h "bus0 [0, 0, 0, 7]" "[0x10]" "[0xAA]" recorder]
    by simp
qed

subsection \<open>Decoding what the sequencer emits\<close>

lemma decode_SetPins:
  "decode c (gpioSetD c # v # dir # rest) = map_option ((#) (SetPins v dir)) (decode c rest)"
  by (subst decode.simps) simp

lemma decode_WriteBytes:
  assumes "mpsse_distinct c"
  shows "decode c ((dataOut c OR dataOutFall c) # 0 # 0 # b # rest)
           = map_option ((#) (WriteBytes 0 0 [b])) (decode c rest)"
proof -
  have "dataOut c OR dataOutFall c \<noteq> gpioSetD c"
    using assms by (auto simp: mpsse_distinct_def)
  then show ?thesis
    by (subst decode.simps) simp
qed

lemma decode_ReadBit:
  assumes "mpsse_distinct c"
  shows "decode c ((dataIn c OR dataBit c) # n # rest)
           = map_option ((#) (ReadBit n)) (decode c rest)"
proof -
  have "dataIn c OR dataBit c \<noteq> gpioSetD c"
       "dataIn c OR dataBit c \<noteq> dataOut c OR dataOutFall c"
    using assms by (auto simp: mpsse_distinct_def)
  then show ?thesis
    by (subst decode.simps) simp
qed

lemma decode_ReadBytes:
  assumes "mpsse_distinct c"
  shows "decode c (dataIn c # lo # hi # rest)
           = map_option ((#) (ReadBytes lo hi)) (decode c rest)"
proof -
  have "dataIn c \<noteq> gpioSetD c" "dataIn c \<noteq> dataOut c OR dataOutFall c"
       "dataIn c \<noteq> dataIn c OR dataBit c"
    using assms by (auto simp: mpsse_distinct_def)
  then show ?thesis
    by (subst decode.simps) simp
qed

lemma decode_WriteBit:
  assumes "mpsse_distinct c"
  shows "decode c ((dataOut c OR dataOutFall c OR dataBit c) # n # v # rest)
           = map_option ((#) (WriteBit n v)) (decode c rest)"
proof -
  have "dataOut c OR dataOutFall c OR dataBit c \<noteq> gpioSetD c"
       "dataOut c OR dataOutFall c OR dataBit c \<noteq> dataOut c OR dataOutFall c"
       "dataOut c OR dataOutFall c OR dataBit c \<noteq> dataIn c OR dataBit c"
       "dataOut c OR dataOutFall c OR dataBit c \<noteq> dataIn c"
    using assms by (auto simp: mpsse_distinct_def)
  then show ?thesis
    by (subst decode.simps) simp
qed

lemma decode_start:
  "decode c (setI2CStart c d @ rest) = map_option ((@) (startOps (direction d))) (decode c rest)"
  by (cases "decode c rest")
     (simp_all add: setI2CStart_def Let_def startOps_def decode_SetPins eval_nat_numeral)

lemma decode_stop:
  "decode c (setI2CStop c d @ rest) = map_option ((@) (stopOps (direction d))) (decode c rest)"
  by (cases "decode c rest")
     (simp_all add: setI2CStop_def Let_def stopOps_def decode_SetPins eval_nat_numeral)

lemma decode_idle:
  "decode c (fst (setI2CLinesIdle c d) @ rest)
     = map_option ((@) (idleOps (direction (snd (setI2CLinesIdle c d))))) (decode c rest)"
  by (cases "decode c rest")
     (simp_all add: setI2CLinesIdle_def Let_def idleOps_def decode_SetPins eval_nat_numeral)

lemma decode_writeChunk:
  "mpsse_distinct c \<Longrightarrow>
   decode c (writeChunk c dir b @ rest) = map_option ((@) (writeByteOps dir b)) (decode c rest)"
  by (cases "decode c rest")
     (simp_all add: writeChunk_def writeByteOps_def decode_SetPins decode_WriteBytes decode_ReadBit
        eval_nat_numeral)

lemma decode_readChunk:
  "mpsse_distinct c \<Longrightarrow>
   decode c (readChunk c dir a @ rest) = map_option ((@) (readByteOps dir a)) (decode c rest)"
  by (cases "decode c rest")
     (simp_all add: readChunk_def readByteOps_def decode_SetPins decode_ReadBytes decode_WriteBit)

lemma decode_writeChunks:
  "mpsse_distinct c \<Longrightarrow>
   decode c (concat (map (writeChunk c dir) bs) @ rest)
     = map_option ((@) (concat (map (writeByteOps dir) bs))) (decode c rest)"
proof (induction bs)
  case Nil
  show ?case by (cases "decode c rest") simp_all
next
  case (Cons b bs)
  then show ?case
    by (cases "decode c rest") (simp_all add: decode_writeChunk)
qed

lemma decode_readChunks:
  "mpsse_distinct c \<Longrightarrow>
   decode c (concat (map (readChunk c dir) as) @ rest)
     = map_option ((@) (concat (map (readByteOps dir) as))) (decode c rest)"
proof (induction as)
  case Nil
  show ?case by (cases "decode c rest") simp_all
next
  case (Cons a as)
  then show ?case
    by (cases "decode c rest") (simp_all add: decode_readChunk)
qed

lemma decode_write:
  "mpsse_distinct c \<Longrightarrow>
   decode c (setI2CWriteBytes c d bs @ rest)
     = map_option ((@) (concat (map (writeByteOps (direction d)) bs))) (decode c rest)"
  by (simp add: setI2CWriteBytes_chunks decode_writeChunks)

lemma decode_read:
  "mpsse_distinct c \<Longrightarrow> 1 \<le> n \<Longrightarrow>
   decode c (setI2CReadBytes c d n @ rest)
     = map_option ((@) (concat (map (readByteOps (direction d)) (replicate (nat (n - 1)) 0x00 @ [0xFF]))))
         (decode c rest)"
  by (simp only: setI2CReadBytes_acks decode_readChunks)

lemma ackOps_append: "ackOps (xs @ ys) = ackOps xs + ackOps ys"
  by (simp add: ackOps_def)

lemma readOps_append: "readOps (xs @ ys) = readOps xs + readOps ys"
  by (simp add: readOps_def)

lemma ackBits_append: "ackBits (xs @ ys) = ackBits xs @ ackBits ys"
  by (simp add: ackBits_def)

lemma count_startOps: "ackOps (startOps dir) = 0" "readOps (startOps dir) = 0"
  by (simp_all add: ackOps_def readOps_def startOps_def)

lemma count_stopOps: "ackOps (stopOps dir) = 0" "readOps (stopOps dir) = 0"
  by (simp_all add: ackOps_def readOps_def stopOps_def)

lemma count_idleOps: "ackOps (idleOps dir) = 0" "readOps (idleOps dir) = 0"
  by (simp_all add: ackOps_def readOps_def idleOps_def)

lemma count_writeByteOps:
  "ackOps (concat (map (writeByteOps dir) bs)) = length bs"
  "readOps (concat (map (writeByteOps dir) bs)) = 0"
  by (induction bs) (simp_all add: ackOps_def readOps_def writeByteOps_def)

lemma count_readByteOps:
  "ackOps (concat (map (readByteOps dir) as)) = 0"
  "readOps (concat (map (readByteOps dir) as)) = length as"
  by (induction as) (simp_all add: ackOps_def readOps_def readByteOps_def)

lemma ackBits_readByteOps:
  "ackBits (concat (map (readByteOps dir) as)) = map (\<lambda>v. bit v 7) as"
  by (induction as) (simp_all add: ackBits_def readByteOps_def)

lemma distinct_ft232h: "mpsse_distinct ft232h"
  by (simp add: mpsse_distinct_def ft232h_def)

text \<open>
  C7. Asked for \<open>n \<ge> 1\<close> bytes, \<open>setI2CReadBytes\<close> emits \<open>n\<close> times: shift eight bits in,
  shift one bit out, release the data line. The bit shifted out after each of the first
  \<open>n - 1\<close> reads is 0 (ACK); after the last read it is 1 (NAK).
\<close>

theorem setI2CReadBytes_master_acks:
  assumes "mpsse_distinct c" "1 \<le> n"
  shows "decode c (setI2CReadBytes c d n) =
           Some (concat (map (readByteOps (direction d)) (replicate (nat (n - 1)) 0x00 @ [0xFF]))) \<and>
         map_option ackBits (decode c (setI2CReadBytes c d n)) =
           Some (replicate (nat (n - 1)) False @ [True])"
proof -
  have dec: "decode c (setI2CReadBytes c d n) =
           Some (concat (map (readByteOps (direction d)) (replicate (nat (n - 1)) 0x00 @ [0xFF])))"
    using decode_read [OF assms, of d "[]"] by (simp add: decode.simps)
  have "ackBits (concat (map (readByteOps (direction d)) (replicate (nat (n - 1)) 0x00 @ [0xFF])))
          = replicate (nat (n - 1)) False @ [True]"
    by (simp only: ackBits_readByteOps) simp
  with dec show ?thesis by simp
qed

theorem setI2CReadBytes_master_acks_witness:
  "mpsse_distinct ft232h \<and> (1::int) \<le> 3 \<and>
   decode ft232h (setI2CReadBytes ft232h (bus0 []) 3) =
     Some [ReadBytes 0 0, WriteBit 0 0x00, SetPins 2 0xFB,
           ReadBytes 0 0, WriteBit 0 0x00, SetPins 2 0xFB,
           ReadBytes 0 0, WriteBit 0 0xFF, SetPins 2 0xFB] \<and>
   map_option ackBits (decode ft232h (setI2CReadBytes ft232h (bus0 []) 3)) = Some [False, False, True]"
proof -
  have d: "mpsse_distinct ft232h"
    by (rule distinct_ft232h)
  have n: "(1::int) \<le> 3"
    by simp
  have e: "concat (map (readByteOps (direction (bus0 []))) (replicate (nat (3 - 1)) 0x00 @ [0xFF]))
             = [ReadBytes 0 0, WriteBit 0 0x00, SetPins 2 0xFB,
                ReadBytes 0 0, WriteBit 0 0x00, SetPins 2 0xFB,
                ReadBytes 0 0, WriteBit 0 0xFF, SetPins 2 0xFB]"
          "replicate (nat (3 - 1)) False @ [True] = [False, False, True]"
    by (simp_all add: readByteOps_def bus0_def i2cSDAOut_def eval_nat_numeral)
  show ?thesis
    using d n setI2CReadBytes_master_acks [OF d n, of "bus0 []"]
    unfolding e by blast
qed

subsection \<open>The batch assembled by Tx\<close>

lemma Tx_batch_combined:
  assumes "w \<noteq> []" "r \<noteq> []"
  shows "Tx_batch c d addr w r =
     (setI2CStart c d @ setI2CWriteBytes c d (address_byte addr False # w) @ setI2CStop c d
        @ fst (setI2CLinesIdle c d)
        @ setI2CStart c (snd (setI2CLinesIdle c d))
        @ setI2CWriteBytes c (snd (setI2CLinesIdle c d)) [address_byte addr True]
        @ setI2CReadBytes c (snd (setI2CLinesIdle c d)) (int (length r))
        @ setI2CStop c (snd (setI2CLinesIdle c d)),
      (1 + int (length w)) + 1 + int (length r),
      snd (setI2CLinesIdle c d))"
  using assms by (simp add: Tx_batch_def Let_def split: prod.splits)

lemma Tx_batch_single:
  assumes "w = [] \<or> r = []"
  shows "Tx_batch c d addr w r =
     (setI2CStart c d @ setI2CWriteBytes c d (address_byte addr False # w) @ setI2CStop c d,
      1 + int (length w), d)"
  using assms by (auto simp: Tx_batch_def Let_def)

lemma decode_Tx_batch_single:
  assumes "mpsse_distinct c" "w = [] \<or> r = []"
  shows "decode c (fst (Tx_batch c d addr w r)) =
           Some (startOps (direction d)
                 @ concat (map (writeByteOps (direction d)) (address_byte addr False # w))
                 @ stopOps (direction d))"
proof -
  have "decode c (setI2CStop c d) = Some (stopOps (direction d))"
    using decode_stop [of c d "[]"] by (simp add: decode.simps)
  then show ?thesis
    by (simp only: Tx_batch_single [OF assms(2)] fst_conv decode_start
          decode_write [OF assms(1)] option.map)
qed

text \<open>
  C6. For a non-empty write payload and an empty read buffer the batch reads back as start,
  one write-with-acknowledgment per byte of address and payload, stop: it holds
  \<open>1 + length w\<close> single-bit shift-ins, no byte shift-in, and the count handed to
  \<open>transactionEnd\<close> is \<open>1 + length w\<close>.
\<close>

theorem Tx_write_only_batch:
  assumes "mpsse_distinct c" "w \<noteq> []"
  shows "decode c (fst (Tx_batch c d addr w [])) =
           Some (startOps (direction d)
                 @ concat (map (writeByteOps (direction d)) (address_byte addr False # w))
                 @ stopOps (direction d)) \<and>
         map_option ackOps (decode c (fst (Tx_batch c d addr w []))) = Some (1 + length w) \<and>
         map_option readOps (decode c (fst (Tx_batch c d addr w []))) = Some 0 \<and>
         fst (snd (Tx_batch c d addr w [])) = 1 + int (length w)"
proof -
  have dec: "decode c (fst (Tx_batch c d addr w [])) =
           Some (startOps (direction d)
                 @ concat (map (writeByteOps (direction d)) (address_byte addr False # w))
                 @ stopOps (direction d))"
    using assms(1) by (rule decode_Tx_batch_single) simp
  have a: "ackOps (startOps (direction d)
                 @ concat (map (writeByteOps (direction d)) (address_byte addr False # w))
                 @ stopOps (direction d)) = 1 + length w"
    by (simp add: ackOps_append count_startOps count_stopOps count_writeByteOps
          del: list.map concat.simps)
  have r: "readOps (startOps (direction d)
                 @ concat (map (writeByteOps (direction d)) (address_byte addr False # w))
                 @ stopOps (direction d)) = 0"
    by (simp add: readOps_append count_startOps count_stopOps count_writeByteOps
          del: list.map concat.simps)
  have n: "fst (snd (Tx_batch c d addr w [])) = 1 + int (length w)"
    by (simp add: Tx_batch_single)
  show ?thesis
    by (simp only: dec a r n option.map simp_thms)
qed

theorem Tx_write_only_batch_witness:
  "mpsse_distinct ft232h \<and> [0x00, 0x10] \<noteq> ([]::byte list) \<and>
   map_option ackOps (decode ft232h (fst (Tx_batch ft232h (bus0 []) 0x50 [0x00, 0x10] []))) = Some 3 \<and>
   map_option readOps (decode ft232h (fst (Tx_batch ft232h (bus0 []) 0x50 [0x00, 0x10] []))) = Some 0 \<and>
   fst (snd (Tx_batch ft232h (bus0 []) 0x50 [0x00, 0x10] [])) = 3"
proof -
  have d: "mpsse_distinct ft232h"
    by (rule distinct_ft232h)
  have w: "[0x00, 0x10] \<noteq> ([]::byte list)"
    by simp
  have l: "1 + length [0x00::byte, 0x10] = 3" "1 + int (length [0x00::byte, 0x10]) = 3"
    by simp_all
  show ?thesis
    using d w Tx_write_only_batch [OF d w, of "bus0 []" "0x50"]
    unfolding l by blast
qed

text \<open>
  The batch of a combined transaction is read back in the same way, and in every case the
  adapter answers a batch with as many bytes as \<open>Tx\<close> asks \<open>transactionEnd\<close> to read.
\<close>

lemma responseBytes_append: "responseBytes (xs @ ys) = responseBytes xs + responseBytes ys"
  by (simp add: responseBytes_def)

lemma responseBytes_sequencer:
  "responseBytes (startOps dir) = 0"
  "responseBytes (stopOps dir) = 0"
  "responseBytes (idleOps dir) = 0"
  by (simp_all add: responseBytes_def startOps_def stopOps_def idleOps_def)

lemma responseBytes_writeByteOps:
  "responseBytes (concat (map (writeByteOps dir) bs)) = length bs"
  by (induction bs) (simp_all add: responseBytes_def writeByteOps_def)

lemma responseBytes_readByteOps:
  "responseBytes (concat (map (readByteOps dir) as)) = length as"
  by (induction as) (simp_all add: responseBytes_def readByteOps_def)

lemma decode_Tx_batch_combined:
  assumes "mpsse_distinct c" "w \<noteq> []" "r \<noteq> []"
  shows "decode c (fst (Tx_batch c d addr w r)) =
           Some (startOps (direction d)
                 @ concat (map (writeByteOps (direction d)) (address_byte addr False # w))
                 @ stopOps (direction d)
                 @ idleOps (direction (snd (setI2CLinesIdle c d)))
                 @ startOps (direction (snd (setI2CLinesIdle c d)))
                 @ concat (map (writeByteOps (direction (snd (setI2CLinesIdle c d))))
                             [address_byte addr True])
                 @ concat (map (readByteOps (direction (snd (setI2CLinesIdle c d))))
                             (replicate (length r - 1) 0x00 @ [0xFF]))
                 @ stopOps (direction (snd (setI2CLinesIdle c d))))"
proof -
  have n: "1 \<le> int (length r)" "nat (int (length r) - 1) = length r - 1"
    using assms(3) by (simp_all add: Suc_le_eq nat_diff_distrib')
  have "decode c (setI2CStop c (snd (setI2CLinesIdle c d)))
          = Some (stopOps (direction (snd (setI2CLinesIdle c d))))"
    using decode_stop [of c "snd (setI2CLinesIdle c d)" "[]"] by (simp add: decode.simps)
  then show ?thesis
    by (simp only: Tx_batch_combined [OF assms(2,3)] fst_conv decode_start decode_stop decode_idle
          decode_write [OF assms(1)] decode_read [OF assms(1) n(1)] n(2) option.map)
qed

lemma Tx_batch_response_count:
  assumes "mpsse_distinct c"
  shows "map_option (\<lambda>ops. int (responseBytes ops)) (decode c (fst (Tx_batch c d addr w r)))
           = Some (fst (snd (Tx_batch c d addr w r)))"
proof (cases "w \<noteq> [] \<and> r \<noteq> []")
  case True
  then have w: "w \<noteq> []" and r: "r \<noteq> []" by simp_all
  have l: "length r - 1 + 1 = length r"
    using r by (simp add: Suc_leI)
  have n: "fst (snd (Tx_batch c d addr w r)) = 1 + int (length w) + 1 + int (length r)"
    by (simp add: Tx_batch_combined [OF w r])
  show ?thesis
    unfolding decode_Tx_batch_combined [OF assms w r] n option.map
    using l
    by (simp add: responseBytes_append responseBytes_sequencer responseBytes_writeByteOps
          responseBytes_readByteOps del: list.map concat.simps map_append)
next
  case False
  then have s: "w = [] \<or> r = []" by simp
  have n: "fst (snd (Tx_batch c d addr w r)) = 1 + int (length w)"
    by (simp add: Tx_batch_single [OF s])
  show ?thesis
    unfolding decode_Tx_batch_single [OF assms s] n option.map
    by (simp add: responseBytes_append responseBytes_sequencer responseBytes_writeByteOps
          del: list.map concat.simps)
qed

lemma setI2CLinesIdle_bus:
  "snd (setI2CLinesIdle c d) = d\<lparr>direction := (direction d AND 0xF8) OR 0x03\<rparr>"
  by (simp add: setI2CLinesIdle_def Let_def i2cSCL_def i2cSDAOut_def i2cSDAIn_def)

lemma address_byte_write: "address_byte addr False = ucast (push_bit 1 addr) AND 0xFE"
  using address_byte_framing [of addr False] by simp

lemma address_byte_read: "address_byte addr True = (ucast (push_bit 1 addr) AND 0xFE) OR 0x01"
  using address_byte_framing [of addr True] by simp

text \<open>
  C1. For a non-empty write payload and a non-empty read buffer the batch reads back as:
  start, the write-direction address byte and the payload written with acknowledgment,
  stop, idle, a second start, the read-direction address byte written with acknowledgment,
  the read of \<open>length r\<close> bytes (acknowledged but for the last), and a final stop. The
  address bytes are the address shifted left by one with bit 0 cleared, respectively set.
  From idle on, the commands carry the direction mask that \<open>setI2CLinesIdle\<close> has set: clock
  and data out, data in cleared, the upper five bits kept. The count handed to
  \<open>transactionEnd\<close> with this batch is \<open>(1 + length w) + 1 + length r\<close>.
\<close>

theorem Tx_combined_batch:
  assumes "mpsse_distinct c" "w \<noteq> []" "r \<noteq> []"
  shows "decode c (fst (Tx_batch c d addr w r)) =
           Some (startOps (direction d)
                 @ concat (map (writeByteOps (direction d))
                             ((ucast (push_bit 1 addr) AND 0xFE) # w))
                 @ stopOps (direction d)
                 @ idleOps ((direction d AND 0xF8) OR 0x03)
                 @ startOps ((direction d AND 0xF8) OR 0x03)
                 @ writeByteOps ((direction d AND 0xF8) OR 0x03)
                     ((ucast (push_bit 1 addr) AND 0xFE) OR 0x01)
                 @ concat (map (readByteOps ((direction d AND 0xF8) OR 0x03))
                             (replicate (length r - 1) 0x00 @ [0xFF]))
                 @ stopOps ((direction d AND 0xF8) OR 0x03)) \<and>
         fst (snd (Tx_batch c d addr w r)) = (1 + int (length w)) + 1 + int (length r) \<and>
         Tx dev c d addr w r =
           transactionEnd dev c (d\<lparr>direction := (direction d AND 0xF8) OR 0x03\<rparr>)
             (fst (Tx_batch c d addr w r)) ((1 + int (length w)) + 1 + int (length r)) r"
proof -
  have dir: "direction (snd (setI2CLinesIdle c d)) = (direction d AND 0xF8) OR 0x03"
    by (simp add: setI2CLinesIdle_bus)
  have dec: "decode c (fst (Tx_batch c d addr w r)) =
           Some (startOps (direction d)
                 @ concat (map (writeByteOps (direction d))
                             ((ucast (push_bit 1 addr) AND 0xFE) # w))
                 @ stopOps (direction d)
                 @ idleOps ((direction d AND 0xF8) OR 0x03)
                 @ startOps ((direction d AND 0xF8) OR 0x03)
                 @ writeByteOps ((direction d AND 0xF8) OR 0x03)
                     ((ucast (push_bit 1 addr) AND 0xFE) OR 0x01)
                 @ concat (map (readByteOps ((direction d AND 0xF8) OR 0x03))
                             (replicate (length r - 1) 0x00 @ [0xFF]))
                 @ stopOps ((direction d AND 0xF8) OR 0x03))"
    unfolding decode_Tx_batch_combined [OF assms] dir address_byte_write address_byte_read
    by simp
  have cnt: "fst (snd (Tx_batch c d addr w r)) = (1 + int (length w)) + 1 + int (length r)"
    by (simp add: Tx_batch_combined [OF assms(2,3)])
  have tx: "Tx dev c d addr w r =
           transactionEnd dev c (d\<lparr>direction := (direction d AND 0xF8) OR 0x03\<rparr>)
             (fst (Tx_batch c d addr w r)) ((1 + int (length w)) + 1 + int (length r)) r"
    by (simp add: Tx_def Tx_batch_combined [OF assms(2,3)] setI2CLinesIdle_bus)
  from dec cnt tx show ?thesis
    by (intro conjI)
qed

theorem Tx_combined_batch_witness:
  "mpsse_distinct ft232h \<and> [0x10] \<noteq> ([]::byte list) \<and> [0xAA, 0xBB] \<noteq> ([]::byte list) \<and>
   decode ft232h (fst (Tx_batch ft232h ((bus0 [])\<lparr>direction := 0xF4\<rparr>) 0x50 [0x10] [0xAA, 0xBB])) =
     Some (startOps 0xF4 @ writeByteOps 0xF4 0xA0 @ writeByteOps 0xF4 0x10 @ stopOps 0xF4
           @ idleOps 0xF3 @ startOps 0xF3 @ writeByteOps 0xF3 0xA1
           @ readByteOps 0xF3 0x00 @ readByteOps 0xF3 0xFF @ stopOps 0xF3) \<and>
   fst (snd (Tx_batch ft232h ((bus0 [])\<lparr>direction := 0xF4\<rparr>) 0x50 [0x10] [0xAA, 0xBB])) = 5 \<and>
   Tx recorder ft232h ((bus0 [])\<lparr>direction := 0xF4\<rparr>) 0x50 [0x10] [0xAA, 0xBB] =
     transactionEnd recorder ft232h ((bus0 [])\<lparr>direction := 0xF3\<rparr>)
       (fst (Tx_batch ft232h ((bus0 [])\<lparr>direction := 0xF4\<rparr>) 0x50 [0x10] [0xAA, 0xBB]))
       5 [0xAA, 0xBB]"
proof -
  have d: "mpsse_distinct ft232h"
    by (rule distinct_ft232h)
  have w: "[0x10] \<noteq> ([]::byte list)" and r: "[0xAA, 0xBB] \<noteq> ([]::byte list)"
    by simp_all
  have e: "direction ((bus0 [])\<lparr>direction := 0xF4\<rparr>) = 0xF4"
          "((0xF4::byte) AND 0xF8) OR 0x03 = 0xF3"
          "(ucast (push_bit 1 (0x50::16 word)) AND 0xFE) = (0xA0::byte)"
          "(0xA0::byte) OR 0x01 = 0xA1"
          "1 + int (length [0x10::byte]) + 1 + int (length [0xAA::byte, 0xBB]) = 5"
          "replicate (length [0xAA::byte, 0xBB] - 1) (0x00::byte) @ [0xFF] = [0x00, 0xFF]"
    by simp_all
  have u: "(bus0 [])\<lparr>direction := 0xF4, direction := 0xF3\<rparr> = (bus0 [])\<lparr>direction := 0xF3\<rparr>"
    by simp
  show ?thesis
    using d w r Tx_combined_batch [OF d w r, of "(bus0 [])\<lparr>direction := 0xF4\<rparr>" "0x50" recorder]
    unfolding e u by simp
qed

subsection \<open>The executor\<close>

lemma index_Some: "0 \<le> i \<Longrightarrow> i < int (length xs) \<Longrightarrow> index xs i = Some (xs ! nat i)"
  by (simp add: index_def)

lemma index_neg: "i < 0 \<Longrightarrow> index xs i = None"
  by (simp add: index_def)

lemma length_fill: "length (fill buf bytes) = length buf"
  by (simp add: fill_def)

lemma verifyAcks_result:
  assumes "0 \<le> i" "lim \<le> int (length buf)"
  shows "verifyAcks buf lim i =
           (if \<exists>j. i \<le> j \<and> j < lim \<and> buf ! nat j AND 0x01 \<noteq> 0 then Some NakReceived else None)"
  using assms
proof (induction buf lim i rule: verifyAcks.induct)
  case (1 readBuff lim iCnt)
  show ?case
  proof (cases "iCnt < lim")
    case False
    then show ?thesis
      by (subst verifyAcks.simps) auto
  next
    case True
    with 1 have ix: "index readBuff iCnt = Some (readBuff ! nat iCnt)"
      by (simp add: index_Some)
    show ?thesis
    proof (cases "readBuff ! nat iCnt AND 0x01 \<noteq> 0")
      case nak: True
      with True ix show ?thesis
        by (subst verifyAcks.simps) auto
    next
      case ack: False
      have ih: "verifyAcks readBuff lim (iCnt + 1) =
           (if \<exists>j. iCnt + 1 \<le> j \<and> j < lim \<and> readBuff ! nat j AND 0x01 \<noteq> 0
            then Some NakReceived else None)"
        using "1.IH" [OF True ix] ack "1.prems" by simp
      have "(\<exists>j. iCnt + 1 \<le> j \<and> j < lim \<and> readBuff ! nat j AND 0x01 \<noteq> 0)
              = (\<exists>j. iCnt \<le> j \<and> j < lim \<and> readBuff ! nat j AND 0x01 \<noteq> 0)"
      proof
        assume "\<exists>j. iCnt + 1 \<le> j \<and> j < lim \<and> readBuff ! nat j AND 0x01 \<noteq> 0"
        then obtain j where "iCnt + 1 \<le> j" "j < lim" "readBuff ! nat j AND 0x01 \<noteq> 0"
          by blast
        then show "\<exists>j. iCnt \<le> j \<and> j < lim \<and> readBuff ! nat j AND 0x01 \<noteq> 0"
          by (intro exI [of _ j]) simp
      next
        assume "\<exists>j. iCnt \<le> j \<and> j < lim \<and> readBuff ! nat j AND 0x01 \<noteq> 0"
        then obtain j where j: "iCnt \<le> j" "j < lim" "readBuff ! nat j AND 0x01 \<noteq> 0"
          by blast
        with ack have "j \<noteq> iCnt" by auto
        with j show "\<exists>j. iCnt + 1 \<le> j \<and> j < lim \<and> readBuff ! nat j AND 0x01 \<noteq> 0"
          by (intro exI [of _ j]) simp
      qed
      with ih True ix ack show ?thesis
        by (subst verifyAcks.simps) simp
    qed
  qed
qed

lemma setRecvData_copy:
  assumes "0 \<le> i" "i \<le> int (length r)" "int (length r) \<le> n" "int (length buf) = n"
  shows "setRecvData buf n i r
           = (None, take (nat i) r @ drop (nat (n - int (length r) + i)) buf)"
  using assms
proof (induction buf n i r rule: setRecvData.induct)
  case (1 readBuff readCnt iCnt r)
  show ?case
  proof (cases "iCnt < int (length r)")
    case False
    with 1 show ?thesis
      by (subst setRecvData.simps) simp
  next
    case True
    define k where "k = nat iCnt"
    define off where "off = nat (readCnt - int (length r))"
    have k: "iCnt = int k" "k < length r"
      using True "1.prems" by (simp_all add: k_def)
    have off: "readCnt - int (length r) = int off" "off + length r = length readBuff"
      using "1.prems" by (simp_all add: off_def)
    have inb: "off + k < length readBuff"
      using k off by simp
    have ix: "index readBuff (readCnt - int (length r) + iCnt) = Some (readBuff ! (off + k))"
      using inb by (simp add: index_def k off nat_add_distrib del: of_nat_add flip: of_nat_add)
    have ih: "setRecvData readBuff readCnt (iCnt + 1) (r[nat iCnt := readBuff ! (off + k)])
           = (None, take (nat (iCnt + 1)) (r[nat iCnt := readBuff ! (off + k)])
                @ drop (nat (readCnt - int (length (r[nat iCnt := readBuff ! (off + k)])) + (iCnt + 1))) readBuff)"
      using "1.IH" [OF True ix] "1.prems" True by simp
    have t: "take (Suc k) (r[k := readBuff ! (off + k)]) = take k r @ [readBuff ! (off + k)]"
      using k by (simp add: take_Suc_conv_app_nth)
    have dr: "drop (off + k) readBuff = readBuff ! (off + k) # drop (Suc (off + k)) readBuff"
      using inb by (simp add: Cons_nth_drop_Suc)
    have n1: "nat (iCnt + 1) = Suc k" "nat iCnt = k"
      by (simp_all add: k)
    have n2: "nat (readCnt - int (length r) + (iCnt + 1)) = Suc (off + k)"
             "nat (readCnt - int (length r) + iCnt) = off + k"
      by (simp_all add: k off)
    show ?thesis
      apply (subst setRecvData.simps)
      using True "1.prems"(1) ix ih
      apply (simp add: n1 n2 t dr)
      done
  qed
qed

lemma setRecvData_panic:
  assumes "r \<noteq> []" "n < int (length r)"
  shows "setRecvData buf n 0 r = (Some PanicIndexOutOfRange, r)"
  using assms by (subst setRecvData.simps) (simp add: index_neg)

lemma roundTrip_length:
  "roundTrip dev c h0 cmd n = Some (resp, h3) \<Longrightarrow> length resp = n"
  by (auto simp: roundTrip_def length_fill split: prod.splits option.splits sum.splits)

lemma transactionEnd_roundTrip:
  assumes "0 \<le> n" "roundTrip dev c (h d) cmd (nat n) = Some (resp, h3)"
  shows "transactionEnd dev c d cmd n r =
           (case verifyAcks resp (n - int (length r)) 0 of
              Some e \<Rightarrow> (Some e, r, d\<lparr>h := h3\<rparr>)
            | None \<Rightarrow> (case setRecvData resp n 0 r of (e, r') \<Rightarrow> (e, r', d\<lparr>h := h3\<rparr>)))"
  using assms
  by (auto simp: transactionEnd_def roundTrip_def Let_def
           split: prod.splits option.splits sum.splits)

lemma transactionEnd_nak:
  assumes "0 \<le> n" "roundTrip dev c (h d) cmd (nat n) = Some (resp, h3)"
      and "int i < n - int (length r)" "resp ! i AND 0x01 \<noteq> 0"
  shows "transactionEnd dev c d cmd n r = (Some NakReceived, r, d\<lparr>h := h3\<rparr>)"
proof -
  have len: "int (length resp) = n"
    using assms(1,2) by (simp add: roundTrip_length)
  have "\<exists>j. 0 \<le> j \<and> j < n - int (length r) \<and> resp ! nat j AND 0x01 \<noteq> 0"
    using assms(3,4) by (intro exI [of _ "int i"]) simp
  then have "verifyAcks resp (n - int (length r)) 0 = Some NakReceived"
    using len by (subst verifyAcks_result) simp_all
  then show ?thesis
    by (simp add: transactionEnd_roundTrip [OF assms(1,2)])
qed

lemma transactionEnd_copy:
  assumes "0 \<le> n" "roundTrip dev c (h d) cmd (nat n) = Some (resp, h3)"
      and "int (length r) \<le> n"
      and "\<forall>i. int i < n - int (length r) \<longrightarrow> resp ! i AND 0x01 = 0"
  shows "transactionEnd dev c d cmd n r
           = (None, drop (nat n - length r) resp, d\<lparr>h := h3\<rparr>)"
proof -
  have len: "int (length resp) = n"
    using assms(1,2) by (simp add: roundTrip_length)
  have "\<not> (\<exists>j. 0 \<le> j \<and> j < n - int (length r) \<and> resp ! nat j AND 0x01 \<noteq> 0)"
  proof
    assume "\<exists>j. 0 \<le> j \<and> j < n - int (length r) \<and> resp ! nat j AND 0x01 \<noteq> 0"
    then obtain j where j: "0 \<le> j" "j < n - int (length r)" "resp ! nat j AND 0x01 \<noteq> 0"
      by blast
    then have "int (nat j) < n - int (length r)" by simp
    with assms(4) j(3) show False by blast
  qed
  then have v: "verifyAcks resp (n - int (length r)) 0 = None"
    using len by (subst verifyAcks_result) simp_all
  have "setRecvData resp n 0 r = (None, take (nat 0) r @ drop (nat (n - int (length r) + 0)) resp)"
    using assms(3) len by (intro setRecvData_copy) simp_all
  moreover have "nat (n - int (length r)) = nat n - length r"
    using assms(1,3) by linarith
  ultimately have s: "setRecvData resp n 0 r = (None, drop (nat n - length r) resp)"
    by simp
  show ?thesis
    by (simp add: transactionEnd_roundTrip [OF assms(1,2)] v s)
qed

lemma transactionEnd_short_response:
  assumes "0 \<le> n" "roundTrip dev c (h d) cmd (nat n) = Some (resp, h3)"
      and "r \<noteq> []" "n < int (length r)"
  shows "transactionEnd dev c d cmd n r = (Some PanicIndexOutOfRange, r, d\<lparr>h := h3\<rparr>)"
proof -
  have "verifyAcks resp (n - int (length r)) 0 = None"
    using assms(4) by (subst verifyAcks.simps) simp
  then show ?thesis
    by (simp add: transactionEnd_roundTrip [OF assms(1,2)] setRecvData_panic [OF assms(3,4)])
qed

lemma Tx_batch_count:
  "Tx_batch c d addr w r = (cmdFull, n, d') \<Longrightarrow>
   n = (if w \<noteq> [] \<and> r \<noteq> [] then 1 + int (length w) + 1 + int (length r) else 1 + int (length w))"
  by (cases "w \<noteq> [] \<and> r \<noteq> []") (auto simp: Tx_batch_combined Tx_batch_single)

lemma roundTrip_recorder:
  "roundTrip recorder c h0 cmd n =
     Some (fill (replicate n 0) (take n (pending h0)),
           h0\<lparr>sent := sent h0 @ [cmd @ [flush c]], pending := drop n (pending h0)\<rparr>)"
  by (simp add: roundTrip_def recorder_def)

lemma h_setI2CLinesIdle: "h (snd (setI2CLinesIdle c d)) = h d"
  by (simp add: setI2CLinesIdle_def Let_def)

lemma Tx_batch_h: "h (snd (snd (Tx_batch c d addr w r))) = h d"
  by (cases "w \<noteq> [] \<and> r \<noteq> []") (auto simp: Tx_batch_combined Tx_batch_single h_setI2CLinesIdle)

text \<open>
  C2. Whenever the round trip to the adapter succeeds and some byte of the acknowledgment
  region of the raw response (an index below the count minus \<open>length r\<close>) has bit 0 set,
  \<open>Tx\<close> returns \<open>NakReceived\<close> and the read buffer is as the caller passed it.
\<close>

theorem Tx_nak_leaves_read_buffer:
  assumes "Tx_batch c d addr w r = (cmdFull, n, d')"
      and "roundTrip dev c (h d') cmdFull (nat n) = Some (resp, h3)"
      and "int i < n - int (length r)" "resp ! i AND 0x01 \<noteq> 0"
  shows "Tx dev c d addr w r = (Some NakReceived, r, d'\<lparr>h := h3\<rparr>)"
proof -
  have "0 \<le> n"
    using Tx_batch_count [OF assms(1)] by (simp split: if_splits)
  then have "transactionEnd dev c d' cmdFull n r = (Some NakReceived, r, d'\<lparr>h := h3\<rparr>)"
    using assms(2,3,4) by (rule transactionEnd_nak)
  then show ?thesis
    by (simp add: Tx_def assms(1))
qed

theorem Tx_nak_leaves_read_buffer_witness:
  "int 1 < 5 - int (length [0xAA::byte, 0xBB]) \<and> [0, 1, 0, 7, 9::byte] ! 1 AND 0x01 \<noteq> 0 \<and>
   fst (Tx recorder ft232h (bus0 [0, 1, 0, 7, 9]) 0x50 [0x10] [0xAA, 0xBB]) = Some NakReceived \<and>
   fst (snd (Tx recorder ft232h (bus0 [0, 1, 0, 7, 9]) 0x50 [0x10] [0xAA, 0xBB])) = [0xAA, 0xBB]"
proof -
  define b where "b = Tx_batch ft232h (bus0 [0, 1, 0, 7, 9]) 0x50 [0x10] [0xAA, 0xBB]"
  have b: "Tx_batch ft232h (bus0 [0, 1, 0, 7, 9]) 0x50 [0x10] [0xAA, 0xBB]
             = (fst b, 5, snd (snd b))"
    by (simp add: b_def Tx_batch_combined)
  have "pending (h (snd (snd b))) = [0, 1, 0, 7, 9]"
    by (simp add: b_def Tx_batch_h bus0_def)
  then obtain h3 where rt:
    "roundTrip recorder ft232h (h (snd (snd b))) (fst b) (nat 5) = Some ([0, 1, 0, 7, 9], h3)"
    by (simp add: roundTrip_recorder fill_def)
  have i: "int 1 < 5 - int (length [0xAA::byte, 0xBB])"
    by simp
  have nk: "[0, 1, 0, 7, 9::byte] ! 1 AND 0x01 \<noteq> 0"
    by simp
  show ?thesis
    using i nk Tx_nak_leaves_read_buffer [OF b rt i nk] by simp
qed

text \<open>
  C5, as amended. For every transaction that is not a pure read (the write payload is not
  empty, or the read buffer is empty): whenever the round trip succeeds and no byte of the
  acknowledgment region has bit 0 set, \<open>Tx\<close> returns no error and the read buffer holds the
  last \<open>length r\<close> bytes of the raw response, in order.
\<close>

theorem Tx_copies_response_tail:
  assumes "Tx_batch c d addr w r = (cmdFull, n, d')"
      and "roundTrip dev c (h d') cmdFull (nat n) = Some (resp, h3)"
      and "w \<noteq> [] \<or> r = []"
      and "\<forall>i. int i < n - int (length r) \<longrightarrow> resp ! i AND 0x01 = 0"
  shows "Tx dev c d addr w r = (None, drop (nat n - length r) resp, d'\<lparr>h := h3\<rparr>) \<and>
         length (drop (nat n - length r) resp) = length r \<and>
         (\<forall>i < length r. drop (nat n - length r) resp ! i = resp ! (nat n - length r + i))"
proof -
  have n: "n = (if w \<noteq> [] \<and> r \<noteq> [] then 1 + int (length w) + 1 + int (length r) else 1 + int (length w))"
    by (rule Tx_batch_count [OF assms(1)])
  have pos: "0 \<le> n" and le: "int (length r) \<le> n"
    using n assms(3) by (auto split: if_splits)
  have len: "length resp = nat n"
    using assms(2) by (rule roundTrip_length)
  have "transactionEnd dev c d' cmdFull n r = (None, drop (nat n - length r) resp, d'\<lparr>h := h3\<rparr>)"
    using pos assms(2) le assms(4) by (rule transactionEnd_copy)
  then have "Tx dev c d addr w r = (None, drop (nat n - length r) resp, d'\<lparr>h := h3\<rparr>)"
    by (simp add: Tx_def assms(1))
  moreover have "length (drop (nat n - length r) resp) = length r"
    using len le pos by simp
  moreover have "\<forall>i < length r. drop (nat n - length r) resp ! i = resp ! (nat n - length r + i)"
    using len le pos by simp
  ultimately show ?thesis by blast
qed

theorem Tx_copies_response_tail_witness:
  "[0x10] \<noteq> ([]::byte list) \<and>
   Tx recorder ft232h (bus0 [0, 0, 0, 7, 9]) 0x50 [0x10] [0xAA, 0xBB] =
     (None, [7, 9], snd (snd (Tx recorder ft232h (bus0 [0, 0, 0, 7, 9]) 0x50 [0x10] [0xAA, 0xBB])))"
proof -
  define b where "b = Tx_batch ft232h (bus0 [0, 0, 0, 7, 9]) 0x50 [0x10] [0xAA, 0xBB]"
  have b: "Tx_batch ft232h (bus0 [0, 0, 0, 7, 9]) 0x50 [0x10] [0xAA, 0xBB]
             = (fst b, 5, snd (snd b))"
    by (simp add: b_def Tx_batch_combined)
  have "pending (h (snd (snd b))) = [0, 0, 0, 7, 9]"
    by (simp add: b_def Tx_batch_h bus0_def)
  then obtain h3 where rt:
    "roundTrip recorder ft232h (h (snd (snd b))) (fst b) (nat 5) = Some ([0, 0, 0, 7, 9], h3)"
    by (simp add: roundTrip_recorder fill_def)
  have w: "[0x10] \<noteq> ([]::byte list) \<or> [0xAA, 0xBB] = ([]::byte list)"
    by simp
  have ack: "\<forall>i. int i < 5 - int (length [0xAA::byte, 0xBB]) \<longrightarrow> [0, 0, 0, 7, 9::byte] ! i AND 0x01 = 0"
  proof (intro allI impI)
    fix i :: nat
    assume "int i < 5 - int (length [0xAA::byte, 0xBB])"
    then have "i = 0 \<or> i = 1 \<or> i = 2" by auto
    then show "[0, 0, 0, 7, 9::byte] ! i AND 0x01 = 0" by auto
  qed
  show ?thesis
    using w Tx_copies_response_tail [OF b rt w ack] by simp
qed

text \<open>
  A pure read (empty write payload) queues no read and asks for one response byte, the
  acknowledgment of the address. \<open>transactionEnd\<close> still takes the last \<open>length r\<close> bytes
  of the response for data: with a buffer of one byte the acknowledgment region is empty and
  the acknowledgment byte itself is copied into the buffer; with a longer buffer the first
  copy indexes the response at \<open>1 - length r < 0\<close>.
\<close>

lemma Tx_pure_read_batch:
  assumes "mpsse_distinct c"
  shows "map_option ackOps (decode c (fst (Tx_batch c d addr [] r))) = Some 1 \<and>
         map_option readOps (decode c (fst (Tx_batch c d addr [] r))) = Some 0 \<and>
         fst (snd (Tx_batch c d addr [] r)) = 1"
proof -
  have n: "fst (snd (Tx_batch c d addr [] r)) = 1"
    by (simp add: Tx_batch_single)
  have s: "[] = ([]::byte list) \<or> r = []"
    by simp
  show ?thesis
    unfolding decode_Tx_batch_single [OF assms s] n option.map
    by (simp add: ackOps_append readOps_append count_startOps count_stopOps count_writeByteOps
          del: list.map concat.simps)
qed

lemma Tx_pure_read_one:
  assumes "roundTrip dev c (h d) (fst (Tx_batch c d addr [] [x])) 1 = Some (resp, h3)"
  shows "Tx dev c d addr [] [x] = (None, [resp ! 0], d\<lparr>h := h3\<rparr>)"
proof -
  have len: "length resp = 1"
    using assms by (rule roundTrip_length)
  then have resp: "resp = [resp ! 0]"
    by (cases resp) simp_all
  have "transactionEnd dev c d (fst (Tx_batch c d addr [] [x])) 1 [x]
          = (None, drop (nat 1 - length [x]) resp, d\<lparr>h := h3\<rparr>)"
    using assms by (intro transactionEnd_copy) simp_all
  then show ?thesis
    using resp by (simp add: Tx_def Tx_batch_single)
qed

lemma Tx_pure_read_many:
  assumes "roundTrip dev c (h d) (fst (Tx_batch c d addr [] r)) 1 = Some (resp, h3)"
      and "2 \<le> length r"
  shows "Tx dev c d addr [] r = (Some PanicIndexOutOfRange, r, d\<lparr>h := h3\<rparr>)"
proof -
  have "r \<noteq> []" "1 < int (length r)"
    using assms(2) by auto
  then have "transactionEnd dev c d (fst (Tx_batch c d addr [] r)) 1 r
          = (Some PanicIndexOutOfRange, r, d\<lparr>h := h3\<rparr>)"
    using assms(1) by (intro transactionEnd_short_response) simp_all
  then show ?thesis
    by (simp add: Tx_def Tx_batch_single)
qed

text \<open>
  C5 as stated fails for a pure read into a buffer of two bytes: the acknowledgment region
  is empty, yet \<open>Tx\<close> does not return success; the index is out of range.
\<close>

theorem Tx_pure_read_two_bytes_panics:
  "fst (Tx recorder ft232h (bus0 [0x00]) 0x50 [] [0xAA, 0xBB]) = Some PanicIndexOutOfRange \<and>
   fst (snd (Tx recorder ft232h (bus0 [0x00]) 0x50 [] [0xAA, 0xBB])) = [0xAA, 0xBB]"
proof -
  have a: "roundTrip recorder ft232h (h (bus0 [0x00]))
             (fst (Tx_batch ft232h (bus0 [0x00]) 0x50 [] [0xAA, 0xBB])) 1
          = Some ([0x00], (h (bus0 [0x00]))\<lparr>sent := sent (h (bus0 [0x00])) @
               [fst (Tx_batch ft232h (bus0 [0x00]) 0x50 [] [0xAA, 0xBB]) @ [flush ft232h]],
               pending := drop 1 (pending (h (bus0 [0x00])))\<rparr>)"
    by (simp add: roundTrip_recorder fill_def bus0_def)
  show ?thesis
    by (simp add: Tx_pure_read_many [OF a])
qed

text \<open>
  C3. A pure read into a buffer of one byte, on an adapter that answers the address with
  the byte 0 (ACK): the count is 1 and \<open>Tx\<close> returns no error, but the buffer, \<open>0xAA\<close>
  before the call, holds the acknowledgment byte afterwards. With the answer 1 (NAK) the
  result is the same: no error, and the buffer holds 1.
\<close>

theorem Tx_pure_read_overwrites_buffer:
  "fst (snd (Tx_batch ft232h (bus0 [0x00]) 0x50 [] [0xAA])) = 1 \<and>
   fst (Tx recorder ft232h (bus0 [0x00]) 0x50 [] [0xAA]) = None \<and>
   fst (snd (Tx recorder ft232h (bus0 [0x00]) 0x50 [] [0xAA])) = [0x00] \<and>
   fst (Tx recorder ft232h (bus0 [0x01]) 0x50 [] [0xAA]) = None \<and>
   fst (snd (Tx recorder ft232h (bus0 [0x01]) 0x50 [] [0xAA])) = [0x01]"
proof -
  have a: "roundTrip recorder ft232h (h (bus0 [0x00])) (fst (Tx_batch ft232h (bus0 [0x00]) 0x50 [] [0xAA])) 1
          = Some ([0x00], (h (bus0 [0x00]))\<lparr>sent := sent (h (bus0 [0x00])) @
               [fst (Tx_batch ft232h (bus0 [0x00]) 0x50 [] [0xAA]) @ [flush ft232h]],
               pending := drop 1 (pending (h (bus0 [0x00])))\<rparr>)"
    by (simp add: roundTrip_recorder fill_def bus0_def)
  have b: "roundTrip recorder ft232h (h (bus0 [0x01])) (fst (Tx_batch ft232h (bus0 [0x01]) 0x50 [] [0xAA])) 1
          = Some ([0x01], (h (bus0 [0x01]))\<lparr>sent := sent (h (bus0 [0x01])) @
               [fst (Tx_batch ft232h (bus0 [0x01]) 0x50 [] [0xAA]) @ [flush ft232h]],
               pending := drop 1 (pending (h (bus0 [0x01])))\<rparr>)"
    by (simp add: roundTrip_recorder fill_def bus0_def)
  show ?thesis
    by (simp add: Tx_pure_read_one [OF a] Tx_pure_read_one [OF b] Tx_batch_single)
qed

subsection \<open>Close\<close>

text \<open>
  C9, as amended. Two calls of \<open>Close\<close> in succession each write the same command (two-phase
  clocking, the 30 MHz clock with two zero bytes and, unless \<open>pullUp\<close> is set, tri-state
  off) and each leave \<open>usingI2C\<close> cleared; the second changes nothing of the bus but the
  state of the handle. The result of either call is the result of its write: the second
  call fails exactly when the handle fails that write.
\<close>

theorem Close_twice:
  "(let cmd = [clock2Phase c, clock30MHz c, 0, 0]
                @ (if pullUp d then [] else [dataTristate c, 0, 0]);
        w1 = h_Write dev cmd (h d);
        d1 = d\<lparr>h := snd w1, usingI2C := False\<rparr>;
        w2 = h_Write dev cmd (h d1)
    in Close dev c d = (map_option TransportError (fst w1), d1) \<and>
       Close dev c d1 = (map_option TransportError (fst w2), d1\<lparr>h := snd w2\<rparr>) \<and>
       \<not> usingI2C d1 \<and> \<not> usingI2C (d1\<lparr>h := snd w2\<rparr>))"
  by (simp add: Close_def stopI2C_def Let_def split: prod.splits)

text \<open>
  C9 as stated fails on a handle that takes one write and fails from then on: the first
  \<open>Close\<close> succeeds, the second returns the transport's error.
\<close>

theorem Close_twice_second_fails:
  "fst (Close unplugged ft232h (bus0 [])) = None \<and>
   fst (Close unplugged ft232h (snd (Close unplugged ft232h (bus0 []))))
     = Some (TransportError ''usb: write failed'')"
  by (simp add: Close_def stopI2C_def Let_def unplugged_def bus0_def)

end
